theory Spec2Isabelle
  imports Main "HOL-Library.Sublist"
begin

section \<open>Frequency ranking: \<open>Counter(bucket).most_common(top_n)\<close>\<close>

text \<open>
  Both analysers of \<^verbatim>\<open>ejemplo.py\<close> end with
  \<^verbatim>\<open>Counter(bucket).most_common(top_n)\<close>.
  A \<^verbatim>\<open>Counter\<close> is a dictionary, and a Python dictionary keeps its keys in the order of
  their first insertion, so it is modelled as an association list: \<open>count_elem\<close> is one
  step \<^verbatim>\<open>mapping[elem] = mapping.get(elem, 0) + 1\<close> of the counting loop, and \<open>Counter\<close>
  runs it over the bucket from left to right.
\<close>

fun count_elem :: "'a \<Rightarrow> ('a \<times> nat) list \<Rightarrow> ('a \<times> nat) list" where
  "count_elem x [] = [(x, 1)]"
| "count_elem x ((k, c) # kvs) =
     (if k = x then (k, c + 1) # kvs else (k, c) # count_elem x kvs)"

definition Counter :: "'a list \<Rightarrow> ('a \<times> nat) list" where
  "Counter xs = foldl (\<lambda>m x. count_elem x m) [] xs"

text \<open>
  \<^verbatim>\<open>most_common(n)\<close> is \<^verbatim>\<open>heapq.nlargest(n, self.items(), key=itemgetter(1))\<close>, which the
  library documents as \<^verbatim>\<open>sorted(items, key=itemgetter(1), reverse=True)[:n]\<close>. Python's
  sort is stable also under \<^verbatim>\<open>reverse=True\<close>: it orders by decreasing key and leaves items
  of equal key in their original order. That is the stable ascending sort \<open>sort_key\<close> on
  the negated count. A slice \<^verbatim>\<open>[:n]\<close> is \<open>take\<close>; \<^verbatim>\<open>nlargest\<close> returns the empty list for
  \<open>n \<le> 0\<close>, as \<open>take (nat n)\<close> does.
\<close>

definition most_common :: "('a \<times> nat) list \<Rightarrow> int \<Rightarrow> ('a \<times> nat) list" where
  "most_common m n = take (nat n) (sort_key (\<lambda>kv. - int (snd kv)) m)"

text \<open>The position of the first occurrence of a token in a bucket.\<close>

definition first_index :: "'a \<Rightarrow> 'a list \<Rightarrow> nat" where
  "first_index x xs = length (takeWhile (\<lambda>y. y \<noteq> x) xs)"

section \<open>Text cleaning in \<open>scrapear_wikipedia\<close>\<close>

text \<open>
  A Python \<^verbatim>\<open>str\<close> is modelled as a \<^typ>\<open>string\<close>: a list of characters with code points
  \<open>U+0000\<close> to \<open>U+00FF\<close>. \<open>is_space\<close> is the class \<^verbatim>\<open>\s\<close> of \<^verbatim>\<open>re\<close> on a \<^verbatim>\<open>str\<close> pattern,
  which is also what \<^verbatim>\<open>str.strip()\<close> removes: the characters with \<^verbatim>\<open>str.isspace()\<close>.
\<close>

definition is_space :: "char \<Rightarrow> bool" where
  "is_space c \<longleftrightarrow>
     c \<in> {CHR 0x09, CHR 0x0A, CHR 0x0B, CHR 0x0C, CHR 0x0D, CHR 0x1C, CHR 0x1D, CHR 0x1E,
          CHR 0x1F, CHR 0x20, CHR 0x85, CHR 0xA0}"

definition strip :: "string \<Rightarrow> string" where
  "strip s = rev (dropWhile is_space (rev (dropWhile is_space s)))"

text \<open>
  Lines 55 to 59 of \<^verbatim>\<open>scrapear_wikipedia\<close>:
  \<^verbatim>\<open>texto = re.sub(r"\[.*?\]", "", texto_sucio)\<close> and then
  \<^verbatim>\<open>texto = re.sub(r"\s+", " ", texto).strip()\<close>.

  \<open>lazy_close\<close> matches \<^verbatim>\<open>.*?\]\<close> at the start of a string and returns what follows the
  match: the lazy star first tries the closing bracket and otherwise consumes one
  character, which must not be a line feed (the pattern has no \<^verbatim>\<open>DOTALL\<close> flag).
  \<open>match_referencia\<close> matches the whole pattern at the start of a string,
  \<open>sub_referencias\<close> is the \<^verbatim>\<open>re.sub\<close> that deletes the leftmost non-overlapping matches,
  and \<open>sub_espacios\<close> is the \<^verbatim>\<open>re.sub\<close> that replaces each maximal run of whitespace by one
  space.
\<close>

fun lazy_close :: "string \<Rightarrow> string option" where
  "lazy_close [] = None"
| "lazy_close (c # cs) =
     (if c = CHR '']'' then Some cs else if c = CHR 0x0A then None else lazy_close cs)"

definition match_referencia :: "string \<Rightarrow> string option" where
  "match_referencia s =
     (case s of [] \<Rightarrow> None | c # cs \<Rightarrow> if c = CHR ''['' then lazy_close cs else None)"

lemma lazy_close_shorter: "lazy_close cs = Some rest \<Longrightarrow> length rest < length cs"
  by (induction cs) (auto split: if_splits)

lemma match_referencia_shorter:
  "match_referencia s = Some rest \<Longrightarrow> length rest < length s"
  by (auto simp: match_referencia_def split: list.splits if_splits dest: lazy_close_shorter)

function sub_referencias :: "string \<Rightarrow> string" where
  "sub_referencias [] = []"
| "sub_referencias (c # cs) =
     (case match_referencia (c # cs) of
        Some rest \<Rightarrow> sub_referencias rest
      | None \<Rightarrow> c # sub_referencias cs)"
  by pat_completeness auto
termination
  by (relation "measure length") (auto dest: match_referencia_shorter)

function sub_espacios :: "string \<Rightarrow> string" where
  "sub_espacios [] = []"
| "sub_espacios (c # cs) =
     (if is_space c then CHR '' '' # sub_espacios (dropWhile is_space cs)
      else c # sub_espacios cs)"
  by pat_completeness auto
termination
  by (relation "measure length") (auto simp: le_imp_less_Suc length_dropWhile_le)

definition limpiar_texto :: "string \<Rightarrow> string" where
  "limpiar_texto texto_sucio = strip (sub_espacios (sub_referencias texto_sucio))"

text \<open>
  What the cleaner's properties speak about: \<open>search_referencia s\<close> says that some
  substring of \<open>s\<close> matches the bracketed-reference pattern (\<^verbatim>\<open>re.search\<close> finds a match),
  and \<open>espacios_seguidos s\<close> that \<open>s\<close> has two consecutive whitespace characters.
\<close>

fun search_referencia :: "string \<Rightarrow> bool" where
  "search_referencia [] = False"
| "search_referencia (c # cs) = (match_referencia (c # cs) \<noteq> None \<or> search_referencia cs)"

fun espacios_seguidos :: "string \<Rightarrow> bool" where
  "espacios_seguidos (a # b # cs) = ((is_space a \<and> is_space b) \<or> espacios_seguidos (b # cs))"
| "espacios_seguidos _ = False"

text \<open>
  Two notions for the proofs about the cleaner: \<open>par s\<close> says that some opening bracket
  of \<open>s\<close> is followed, anywhere later, by a closing one, and \<open>corchete\<close> is the class of the
  two brackets. In a text without line feeds the pattern matches exactly when \<open>par\<close>
  holds, and that depends on the brackets of the text only, which the whitespace steps
  leave alone.
\<close>

fun par :: "string \<Rightarrow> bool" where
  "par [] = False"
| "par (c # cs) = ((c = CHR ''['' \<and> CHR '']'' \<in> set cs) \<or> par cs)"

definition corchete :: "char \<Rightarrow> bool" where
  "corchete c \<longleftrightarrow> c = CHR ''['' \<or> c = CHR '']''"

section \<open>The Latin analyser \<open>analizar_texto_latin_basico\<close>\<close>

text \<open>
  Character classes of \<^verbatim>\<open>re\<close> on a \<^verbatim>\<open>str\<close> pattern, on the code points below 256:
  \<open>is_ascii_letter\<close> is the class \<^verbatim>\<open>[a-zA-Z]\<close> and \<open>is_word\<close> is \<^verbatim>\<open>\w\<close>, the characters with
  \<^verbatim>\<open>str.isalnum()\<close> and the underscore. \<open>lower\<close> is \<^verbatim>\<open>str.lower()\<close>, which on these code
  points maps each upper-case letter to one lower-case letter.
\<close>

definition is_ascii_letter :: "char \<Rightarrow> bool" where
  "is_ascii_letter c \<longleftrightarrow>
     (let n = of_char c :: nat in (65 \<le> n \<and> n \<le> 90) \<or> (97 \<le> n \<and> n \<le> 122))"

definition is_word :: "char \<Rightarrow> bool" where
  "is_word c \<longleftrightarrow>
     (let n = of_char c :: nat in
        (48 \<le> n \<and> n \<le> 57) \<or> (65 \<le> n \<and> n \<le> 90) \<or> n = 95 \<or> (97 \<le> n \<and> n \<le> 122)
        \<or> n = 170 \<or> n = 178 \<or> n = 179 \<or> n = 181 \<or> n = 185 \<or> n = 186
        \<or> n = 188 \<or> n = 189 \<or> n = 190
        \<or> (192 \<le> n \<and> n \<le> 214) \<or> (216 \<le> n \<and> n \<le> 246) \<or> (248 \<le> n \<and> n \<le> 255))"

definition mayusculas :: string where
  "mayusculas = ''ABCDEFGHIJKLMNOPQRSTUVWXYZ'' @
     [
      CHR 0xC0, CHR 0xC1, CHR 0xC2, CHR 0xC3, CHR 0xC4, CHR 0xC5, CHR 0xC6, CHR 0xC7,
      CHR 0xC8, CHR 0xC9, CHR 0xCA, CHR 0xCB, CHR 0xCC, CHR 0xCD, CHR 0xCE, CHR 0xCF,
      CHR 0xD0, CHR 0xD1, CHR 0xD2, CHR 0xD3, CHR 0xD4, CHR 0xD5, CHR 0xD6, CHR 0xD8,
      CHR 0xD9, CHR 0xDA, CHR 0xDB, CHR 0xDC, CHR 0xDD, CHR 0xDE]"

definition minusculas :: string where
  "minusculas = ''abcdefghijklmnopqrstuvwxyz'' @
     [
      CHR 0xE0, CHR 0xE1, CHR 0xE2, CHR 0xE3, CHR 0xE4, CHR 0xE5, CHR 0xE6, CHR 0xE7,
      CHR 0xE8, CHR 0xE9, CHR 0xEA, CHR 0xEB, CHR 0xEC, CHR 0xED, CHR 0xEE, CHR 0xEF,
      CHR 0xF0, CHR 0xF1, CHR 0xF2, CHR 0xF3, CHR 0xF4, CHR 0xF5, CHR 0xF6, CHR 0xF8,
      CHR 0xF9, CHR 0xFA, CHR 0xFB, CHR 0xFC, CHR 0xFD, CHR 0xFE]"

definition lower_char :: "char \<Rightarrow> char" where
  "lower_char c = (case map_of (zip mayusculas minusculas) c of Some l \<Rightarrow> l | None \<Rightarrow> c)"

definition lower :: "string \<Rightarrow> string" where
  "lower s = map lower_char s"

text \<open>
  \<^verbatim>\<open>p.endswith(suffix)\<close>, and \<^verbatim>\<open>p.endswith(tuple)\<close>, which is true when \<open>p\<close> ends with some
  member of the tuple.
\<close>

definition endswith :: "string \<Rightarrow> string \<Rightarrow> bool" where
  "endswith p s \<longleftrightarrow> length s \<le> length p \<and> drop (length p - length s) p = s"

definition endswith_any :: "string \<Rightarrow> string list \<Rightarrow> bool" where
  "endswith_any p sufijos \<longleftrightarrow> list_ex (endswith p) sufijos"

definition stopwords_latin :: "string list" where
  "stopwords_latin =
     [
      ''et'', ''in'', ''de'', ''ad'', ''non'', ''ut'', ''cum'', ''per'', ''sed'',
      ''qui'', ''quae'', ''quod'', ''est'', ''sunt'', ''fuit'', ''ex'', ''ab'',
      ''se'', ''is'', ''ea'', ''id'', ''ac'', ''atque'', ''aut'', ''autem'',
      ''enim'', ''etiam'', ''ibi'', ''iam'', ''ita'', ''nam'', ''ne'', ''nec'',
      ''nunc'', ''quam'', ''quia'', ''sic'', ''tam'', ''tamen'', ''ubi'', ''vel'']"

definition terminaciones_verbos :: "string list" where
  "terminaciones_verbos =
     [''are'', ''ere'', ''ire'', ''sse'',
      ''at'', ''et'', ''it'', ''ant'', ''ent'', ''unt'', ''bat'', ''bant'',
      ''avit'', ''evit'', ''ivit'']"

text \<open>
  The tokenizer, line 119: \<^verbatim>\<open>re.findall(r'\b[a-zA-Z]+\b', texto.lower())\<close>.
  \<open>word_boundary\<close> is \<^verbatim>\<open>\b\<close> between the character before a position and the character
  at it (\<open>None\<close> at either end of the text): exactly one of the two is a word character.
  \<open>match_palabra prev s\<close> matches the pattern at the start of \<open>s\<close>, where \<open>prev\<close> is the
  character before \<open>s\<close> in the text, and returns the length of the match: after a boundary,
  the greedy \<^verbatim>\<open>[a-zA-Z]+\<close> takes the longest run of letters, and \<open>backtrack\<close> gives letters
  back one at a time, down to one letter, until a boundary follows.
  \<open>findall_palabras\<close> scans the text from left to right: a match is reported and the
  scan goes on behind it, and where nothing matches the scan moves on by one character.
\<close>

definition is_word_opt :: "char option \<Rightarrow> bool" where
  "is_word_opt x = (case x of None \<Rightarrow> False | Some c \<Rightarrow> is_word c)"

definition word_boundary :: "char option \<Rightarrow> char option \<Rightarrow> bool" where
  "word_boundary l r \<longleftrightarrow> is_word_opt l \<noteq> is_word_opt r"

definition nth_opt :: "string \<Rightarrow> nat \<Rightarrow> char option" where
  "nth_opt s i = (if i < length s then Some (s ! i) else None)"

fun backtrack :: "nat \<Rightarrow> string \<Rightarrow> nat option" where
  "backtrack 0 s = None"
| "backtrack (Suc k) s =
     (if word_boundary (Some (s ! k)) (nth_opt s (Suc k)) then Some (Suc k)
      else backtrack k s)"

definition match_palabra :: "char option \<Rightarrow> string \<Rightarrow> nat option" where
  "match_palabra prev s =
     (if word_boundary prev (nth_opt s 0)
      then backtrack (length (takeWhile is_ascii_letter s)) s
      else None)"

lemma backtrack_bounds: "backtrack k s = Some n \<Longrightarrow> 0 < n \<and> n \<le> k"
  by (induction k) (auto split: if_splits)

lemma match_palabra_pos: "match_palabra prev s = Some n \<Longrightarrow> 0 < n"
  by (auto simp: match_palabra_def split: if_splits dest: backtrack_bounds)

function findall_palabras :: "char option \<Rightarrow> string \<Rightarrow> string list" where
  "findall_palabras prev [] = []"
| "findall_palabras prev (c # cs) =
     (case match_palabra prev (c # cs) of
        Some n \<Rightarrow>
          take n (c # cs) # findall_palabras (Some ((c # cs) ! (n - 1))) (drop n (c # cs))
      | None \<Rightarrow> findall_palabras (Some c) cs)"
  by pat_completeness auto
termination
  by (relation "measure (\<lambda>(prev, s). length s)") (auto dest: match_palabra_pos)

text \<open>
  Lines 119 to 146. The loop over \<open>palabras_filtradas\<close> appends each token to
  \<open>lista_verbos\<close> or to \<open>lista_palabras\<close>; \<open>clasificar\<close> carries the two lists, and takes the
  tuple of endings that the loop reads.
\<close>

definition palabras_raw :: "string \<Rightarrow> string list" where
  "palabras_raw texto = findall_palabras None (lower texto)"

definition palabras_filtradas :: "string \<Rightarrow> string list" where
  "palabras_filtradas texto =
     filter (\<lambda>p. p \<notin> set stopwords_latin \<and> length p > 2) (palabras_raw texto)"

fun clasificar ::
  "string list \<Rightarrow> string list \<Rightarrow> string list \<times> string list \<Rightarrow> string list \<times> string list" where
  "clasificar terminaciones [] (lista_verbos, lista_palabras) = (lista_verbos, lista_palabras)"
| "clasificar terminaciones (p # ps) (lista_verbos, lista_palabras) =
     (if endswith_any p terminaciones
      then clasificar terminaciones ps (lista_verbos @ [p], lista_palabras)
      else clasificar terminaciones ps (lista_verbos, lista_palabras @ [p]))"

definition lista_verbos :: "string \<Rightarrow> string list" where
  "lista_verbos texto = fst (clasificar terminaciones_verbos (palabras_filtradas texto) ([], []))"

definition lista_palabras :: "string \<Rightarrow> string list" where
  "lista_palabras texto = snd (clasificar terminaciones_verbos (palabras_filtradas texto) ([], []))"

definition analizar_texto_latin_basico ::
  "string \<Rightarrow> int \<Rightarrow> (string \<times> nat) list \<times> (string \<times> nat) list" where
  "analizar_texto_latin_basico texto top_n =
     (most_common (Counter (lista_palabras texto)) top_n,
      most_common (Counter (lista_verbos texto)) top_n)"

subsection \<open>Runs of letters\<close>

text \<open>
  What the tokenizer's properties speak about. \<open>runs_letras s\<close> are the maximal runs of
  ASCII letters of \<open>s\<close>, in order of appearance. \<open>runs_contexto\<close> lists the same runs, each
  with the character before it and the character after it (\<open>None\<close> at an end of the text),
  and a run is \<open>delimitada\<close> when neither neighbour is a word character.
\<close>

function runs_letras :: "string \<Rightarrow> string list" where
  "runs_letras [] = []"
| "runs_letras (c # cs) =
     (if is_ascii_letter c
      then takeWhile is_ascii_letter (c # cs) # runs_letras (dropWhile is_ascii_letter cs)
      else runs_letras cs)"
  by pat_completeness auto
termination
  by (relation "measure length") (auto simp: le_imp_less_Suc length_dropWhile_le)

definition head_opt :: "string \<Rightarrow> char option" where
  "head_opt s = (case s of [] \<Rightarrow> None | c # _ \<Rightarrow> Some c)"

function runs_contexto :: "char option \<Rightarrow> string \<Rightarrow> (char option \<times> string \<times> char option) list" where
  "runs_contexto prev [] = []"
| "runs_contexto prev (c # cs) =
     (if is_ascii_letter c
      then (prev, takeWhile is_ascii_letter (c # cs), head_opt (dropWhile is_ascii_letter cs))
             # runs_contexto (Some (last (takeWhile is_ascii_letter (c # cs))))
                 (dropWhile is_ascii_letter cs)
      else runs_contexto (Some c) cs)"
  by pat_completeness auto
termination
  by (relation "measure (\<lambda>(prev, s). length s)") (auto simp: le_imp_less_Suc length_dropWhile_le)

definition delimitada :: "char option \<times> string \<times> char option \<Rightarrow> bool" where
  "delimitada r \<longleftrightarrow> \<not> is_word_opt (fst r) \<and> \<not> is_word_opt (snd (snd r))"

text \<open>\<open>sufijo_propio a b\<close>: the ending \<open>a\<close> is a proper suffix of the ending \<open>b\<close>.\<close>

definition sufijo_propio :: "string \<Rightarrow> string \<Rightarrow> bool" where
  "sufijo_propio a b \<longleftrightarrow> a \<noteq> b \<and> endswith b a"

section \<open>The English analyser \<open>analizar_texto_ingles\<close>\<close>

text \<open>
  The spaCy pipeline \<^verbatim>\<open>nlp_en\<close> is a collaborator: it turns a text into tokens, and the
  analyser reads five attributes of each token, \<^verbatim>\<open>text\<close>, \<^verbatim>\<open>lemma_\<close>, \<^verbatim>\<open>pos_\<close>, \<^verbatim>\<open>is_alpha\<close>
  and \<^verbatim>\<open>is_stop\<close>. A token is a record of these, and the pipeline is a parameter.
\<close>

record token =
  tok_text :: string
  tok_lemma :: string
  tok_pos :: string
  tok_is_alpha :: bool
  tok_is_stop :: bool

text \<open>
  The loop of lines 83 to 92 over the tokens of the document, carrying the two lists
  \<open>palabras\<close> and \<open>verbos\<close> that it appends to.
\<close>

fun clasificar_ingles ::
  "token list \<Rightarrow> string list \<times> string list \<Rightarrow> string list \<times> string list" where
  "clasificar_ingles [] (palabras, verbos) = (palabras, verbos)"
| "clasificar_ingles (tok # doc) (palabras, verbos) =
     (if tok_is_alpha tok \<and> \<not> tok_is_stop tok \<and> length (tok_text tok) > 2
      then
        (let lema = lower (tok_lemma tok) in
         if tok_pos tok = ''VERB'' then clasificar_ingles doc (palabras, verbos @ [lema])
         else if tok_pos tok \<in> set [''NOUN'', ''PROPN'', ''ADJ'']
           then clasificar_ingles doc (palabras @ [lema], verbos)
         else clasificar_ingles doc (palabras, verbos))
      else clasificar_ingles doc (palabras, verbos))"

definition analizar_texto_ingles ::
  "(string \<Rightarrow> token list) \<Rightarrow> string \<Rightarrow> int \<Rightarrow> (string \<times> nat) list \<times> (string \<times> nat) list" where
  "analizar_texto_ingles nlp_en texto top_n =
     (let (palabras, verbos) = clasificar_ingles (nlp_en texto) ([], [])
      in (most_common (Counter palabras) top_n, most_common (Counter verbos) top_n))"

text \<open>
  The acceptance test as the specification words it, with the length taken of the
  normalized form of the token, its lowercased lemma.
\<close>

definition aceptado_normalizado :: "token \<Rightarrow> bool" where
  "aceptado_normalizado tok \<longleftrightarrow>
     tok_is_alpha tok \<and> \<not> tok_is_stop tok \<and> length (lower (tok_lemma tok)) > 2"

section \<open>Fetching and the main routine\<close>

text \<open>
  \<open>scrapear_wikipedia\<close> runs inside one \<^verbatim>\<open>try\<close>: any exception of the request or of the
  parser ends in \<^verbatim>\<open>return None, None\<close>. What the function reads of a page that was
  fetched and parsed is the text of the heading \<^verbatim>\<open>h1#firstHeading\<close>, if there is one, and
  the texts of the paragraphs of \<^verbatim>\<open>div#bodyContent\<close>, if there is one.
\<close>

record pagina =
  titulo_tag :: "string option"
  contenido_div :: "string list option"

datatype respuesta = Excepcion | Pagina pagina

fun join_lineas :: "string list \<Rightarrow> string" where
  "join_lineas [] = []"
| "join_lineas [p] = p"
| "join_lineas (p # ps) = p @ [CHR 0x0A] @ join_lineas ps"

definition titulo_de :: "pagina \<Rightarrow> string" where
  "titulo_de pag =
     (case titulo_tag pag of Some t \<Rightarrow> strip t | None \<Rightarrow> ''Sin T'' @ [CHR 0xED] @ ''tulo'')"

fun scrapear_wikipedia :: "respuesta \<Rightarrow> string option \<times> string option" where
  "scrapear_wikipedia Excepcion = (None, None)"
| "scrapear_wikipedia (Pagina pag) =
     (case contenido_div pag of
        None \<Rightarrow> (Some (titulo_de pag), Some [])
      | Some parrafos \<Rightarrow> (Some (titulo_de pag), Some (limpiar_texto (join_lineas parrafos))))"

text \<open>
  \<open>main\<close>: the two fetches, the test \<^verbatim>\<open>if not texto_en or not texto_la: return\<close> (\<^verbatim>\<open>None\<close>
  and the empty string are both false in Python), then the two analyses with the default
  \<open>top_n = 15\<close> and the tables handed to the Excel writer.
\<close>

record reporte =
  titulos :: "string option list"
  contenido_limpio :: "string list"
  en_words :: "(string \<times> nat) list"
  en_verbs :: "(string \<times> nat) list"
  la_words :: "(string \<times> nat) list"
  la_verbs :: "(string \<times> nat) list"

datatype ejecucion = Abortado | Reporte reporte

definition py_not :: "string option \<Rightarrow> bool" where
  "py_not texto \<longleftrightarrow> texto = None \<or> texto = Some []"

definition main :: "(string \<Rightarrow> token list) \<Rightarrow> respuesta \<Rightarrow> respuesta \<Rightarrow> ejecucion" where
  "main nlp_en resp_en resp_la =
     (let (titulo_en, texto_en) = scrapear_wikipedia resp_en;
          (titulo_la, texto_la) = scrapear_wikipedia resp_la
      in case (texto_en, texto_la) of
           (Some en, Some la) \<Rightarrow>
             if py_not texto_en \<or> py_not texto_la then Abortado
             else
               (let (en_w, en_v) = analizar_texto_ingles nlp_en en 15;
                    (la_w, la_v) = analizar_texto_latin_basico la 15
                in Reporte \<lparr>titulos = [titulo_en, titulo_la],
                            contenido_limpio = [take 30000 en, take 30000 la],
                            en_words = en_w, en_verbs = en_v,
                            la_words = la_w, la_verbs = la_v\<rparr>)
         | _ \<Rightarrow> Abortado)"

section \<open>Properties of the ranking\<close>

subsection \<open>The counting loop\<close>

lemma Counter_snoc: "Counter (xs @ [x]) = count_elem x (Counter xs)"
  by (simp add: Counter_def)

lemma keys_count_elem:
  "map fst (count_elem x m) =
     (if x \<in> set (map fst m) then map fst m else map fst m @ [x])"
  by (induction m) force+

lemma map_of_count_elem:
  "map_of (count_elem x m) =
     (map_of m)(x \<mapsto> (case map_of m x of None \<Rightarrow> 1 | Some c \<Rightarrow> c + 1))"
  by (induction m) (auto simp: fun_eq_iff)

lemma sum_count_elem: "sum_list (map snd (count_elem x m)) = Suc (sum_list (map snd m))"
  by (induction m) auto

lemma keys_Counter: "set (map fst (Counter xs)) = set xs"
proof (induction xs rule: rev_induct)
  case Nil
  show ?case by (simp add: Counter_def)
next
  case (snoc x xs)
  then show ?case by (auto simp: Counter_snoc keys_count_elem)
qed

lemma distinct_Counter: "distinct (map fst (Counter xs))"
proof (induction xs rule: rev_induct)
  case Nil
  show ?case by (simp add: Counter_def)
next
  case (snoc x xs)
  then show ?case by (auto simp: Counter_snoc keys_count_elem)
qed

lemma map_of_Counter:
  "map_of (Counter xs) k = (if k \<in> set xs then Some (count_list xs k) else None)"
proof (induction xs rule: rev_induct)
  case Nil
  show ?case by (simp add: Counter_def)
next
  case (snoc x xs)
  then show ?case by (auto simp: Counter_snoc map_of_count_elem)
qed

lemma Counter_entry:
  assumes "(t, c) \<in> set (Counter xs)"
  shows "c = count_list xs t \<and> 1 \<le> c"
proof -
  from assms have "map_of (Counter xs) t = Some c"
    using distinct_Counter [of xs] by simp
  then have in_xs: "t \<in> set xs" and c: "c = count_list xs t"
    by (auto simp: map_of_Counter split: if_splits)
  from in_xs have "count_list xs t \<noteq> 0"
    by (simp add: count_list_0_iff)
  with c show ?thesis by simp
qed

lemma length_Counter: "length (Counter xs) = card (set xs)"
proof -
  have "length (Counter xs) = length (map fst (Counter xs))" by simp
  also have "\<dots> = card (set (map fst (Counter xs)))"
    using distinct_Counter [of xs] by (simp only: distinct_card)
  finally show ?thesis by (simp only: keys_Counter)
qed

lemma sum_Counter: "sum_list (map snd (Counter xs)) = length xs"
proof (induction xs rule: rev_induct)
  case Nil
  show ?case by (simp add: Counter_def)
next
  case (snoc x xs)
  then show ?case by (simp add: Counter_snoc sum_count_elem)
qed

subsection \<open>The stable descending sort\<close>

lemma sum_insort_key:
  "sum_list (map g (insort_key f x xs)) = g x + sum_list (map (g :: 'a \<Rightarrow> nat) xs)"
  by (induction xs) auto

lemma sum_sort_key: "sum_list (map g (sort_key f xs)) = sum_list (map (g :: 'a \<Rightarrow> nat) xs)"
  by (induction xs) (auto simp: sum_insort_key)

lemma sum_take_le: "sum_list (map g (take n xs)) \<le> sum_list (map (g :: 'a \<Rightarrow> nat) xs)"
proof -
  have "sum_list (map g xs) = sum_list (map g (take n xs)) + sum_list (map g (drop n xs))"
    by (metis append_take_drop_id map_append sum_list_append)
  then show ?thesis by simp
qed

lemma counts_descending:
  "sorted_wrt (\<lambda>a b. b \<le> a) (map snd (sort_key (\<lambda>kv. - int (snd kv)) (m :: ('a \<times> nat) list)))"
proof -
  have "sorted (map (\<lambda>kv. - int (snd kv)) (sort_key (\<lambda>kv. - int (snd kv)) m))"
    by (rule sorted_sort_key)
  then show ?thesis
    by (simp add: sorted_wrt_map sorted_map)
qed

lemma insort_key_tie_order:
  assumes "sorted_wrt (\<lambda>a b. f a < f b \<or> (f a = f b \<and> R a b)) ys"
    and "\<forall>y \<in> set ys. R x y"
  shows "sorted_wrt (\<lambda>a b. f a < f b \<or> (f a = f b \<and> R a b)) (insort_key f x ys)"
  using assms by (induction ys) (auto simp: set_insort_key)

lemma sort_key_tie_order:
  "sorted_wrt R xs \<Longrightarrow>
   sorted_wrt (\<lambda>a b. f a < f b \<or> (f a = f b \<and> R a b)) (sort_key f xs)"
  by (induction xs) (auto intro!: insort_key_tie_order)

lemma first_index_less: "a \<in> set xs \<Longrightarrow> first_index a xs < length xs"
  unfolding first_index_def by (induction xs) auto

lemma first_index_snoc_old: "a \<in> set xs \<Longrightarrow> first_index a (xs @ [x]) = first_index a xs"
  unfolding first_index_def by (induction xs) auto

lemma first_index_snoc_new: "a \<notin> set xs \<Longrightarrow> first_index a (xs @ [a]) = length xs"
  unfolding first_index_def by (induction xs) auto

lemma keys_Counter_first_seen:
  "sorted_wrt (\<lambda>a b. first_index a xs < first_index b xs) (map fst (Counter xs))"
proof (induction xs rule: rev_induct)
  case Nil
  show ?case by (simp add: Counter_def)
next
  case (snoc x xs)
  have keys: "fst ` set (Counter xs) = set xs"
    using keys_Counter [of xs] by simp
  have old: "sorted_wrt (\<lambda>a b. first_index a (xs @ [x]) < first_index b (xs @ [x]))
               (map fst (Counter xs))"
    using snoc.IH
    by (rule sorted_wrt_mono_rel [rotated]) (simp add: keys first_index_snoc_old)
  show ?case
  proof (cases "x \<in> set xs")
    case True
    with old show ?thesis by (simp add: Counter_snoc keys_count_elem keys)
  next
    case False
    with old show ?thesis
      by (simp add: Counter_snoc keys_count_elem keys sorted_wrt_append
          first_index_snoc_old first_index_snoc_new first_index_less)
  qed
qed

lemma ranking_tie_order:
  "sorted_wrt (\<lambda>a b. snd b < snd a \<or> (snd a = snd b \<and> first_index (fst a) xs < first_index (fst b) xs))
     (most_common (Counter xs) n)"
proof -
  have "sorted_wrt (\<lambda>a b. first_index (fst a) xs < first_index (fst b) xs) (Counter xs)"
    using keys_Counter_first_seen [of xs] by (simp add: sorted_wrt_map)
  then have "sorted_wrt (\<lambda>a b. - int (snd a) < - int (snd b) \<or>
                (- int (snd a) = - int (snd b) \<and> first_index (fst a) xs < first_index (fst b) xs))
              (sort_key (\<lambda>kv. - int (snd kv)) (Counter xs))"
    by (rule sort_key_tie_order)
  then have "sorted_wrt (\<lambda>a b. snd b < snd a \<or> (snd a = snd b \<and> first_index (fst a) xs < first_index (fst b) xs))
              (sort_key (\<lambda>kv. - int (snd kv)) (Counter xs))"
    by (rule sorted_wrt_mono_rel [rotated]) auto
  then show ?thesis
    unfolding most_common_def by (rule sorted_wrt_take)
qed

section \<open>Properties of the text cleaner\<close>

subsection \<open>The reference pattern\<close>

lemma lazy_close_sub:
  "lazy_close cs = None \<Longrightarrow> lazy_close (sub_referencias cs) = None"
proof (induction cs rule: sub_referencias.induct)
  case 1
  show ?case by simp
next
  case (2 c cs)
  then show ?case
    by (cases "match_referencia (c # cs)")
       (auto simp: match_referencia_def split: if_splits)
qed

lemma match_referencia_sub:
  "match_referencia (c # cs) = None \<Longrightarrow> match_referencia (c # sub_referencias cs) = None"
  by (auto simp: match_referencia_def lazy_close_sub split: if_splits)

lemma no_referencia_sub: "\<not> search_referencia (sub_referencias s)"
proof (induction s rule: sub_referencias.induct)
  case 1
  show ?case by simp
next
  case (2 c cs)
  show ?case
  proof (cases "match_referencia (c # cs)")
    case None
    with 2 show ?thesis by (simp add: match_referencia_sub)
  next
    case (Some rest)
    with 2 show ?thesis by simp
  qed
qed

lemma lazy_close_one_line:
  "CHR 0x0A \<notin> set cs \<Longrightarrow> (\<exists>rest. lazy_close cs = Some rest) \<longleftrightarrow> CHR '']'' \<in> set cs"
  by (induction cs) auto

lemma search_one_line: "CHR 0x0A \<notin> set s \<Longrightarrow> search_referencia s = par s"
  by (induction s) (auto simp: match_referencia_def lazy_close_one_line)

lemma par_corchetes: "par (filter corchete s) = par s"
  by (induction s) (auto simp: corchete_def)

lemma filter_dropWhile_other:
  "(\<And>c. P c \<Longrightarrow> \<not> Q c) \<Longrightarrow> filter P (dropWhile Q xs) = filter P xs"
  by (induction xs) auto

lemma corchete_not_space: "corchete c \<Longrightarrow> \<not> is_space c"
  by (auto simp: corchete_def is_space_def)

lemma corchetes_sub_espacios: "filter corchete (sub_espacios s) = filter corchete s"
  by (induction s rule: sub_espacios.induct)
     (auto simp: filter_dropWhile_other corchete_not_space, simp add: corchete_def)

lemma corchetes_strip: "filter corchete (strip s) = filter corchete s"
  by (simp add: strip_def filter_dropWhile_other corchete_not_space flip: rev_filter)

lemma lazy_close_set: "lazy_close cs = Some rest \<Longrightarrow> set rest \<subseteq> set cs"
  by (induction cs) (auto split: if_splits)

lemma set_sub_referencias: "set (sub_referencias s) \<subseteq> set s"
proof (induction s rule: sub_referencias.induct)
  case 1
  show ?case by simp
next
  case (2 c cs)
  show ?case
  proof (cases "match_referencia (c # cs)")
    case None
    with 2 show ?thesis by auto
  next
    case (Some rest)
    then have "set rest \<subseteq> set cs"
      by (auto simp: match_referencia_def split: if_splits dest: lazy_close_set)
    with 2 Some show ?thesis by auto
  qed
qed

lemma space_sub_espacios: "c \<in> set (sub_espacios s) \<Longrightarrow> is_space c \<Longrightarrow> c = CHR '' ''"
  by (induction s rule: sub_espacios.induct) (auto split: if_splits)

lemma set_strip: "set (strip s) \<subseteq> set s"
  by (auto simp: strip_def dest!: set_dropWhileD)

lemma limpiar_one_line: "CHR 0x0A \<notin> set (limpiar_texto s)"
proof
  assume "CHR 0x0A \<in> set (limpiar_texto s)"
  then have "CHR 0x0A \<in> set (sub_espacios (sub_referencias s))"
    using set_strip unfolding limpiar_texto_def by blast
  then have "CHR 0x0A = CHR '' ''"
    by (rule space_sub_espacios) (simp add: is_space_def)
  then show False by simp
qed

lemma search_limpiar: "search_referencia (limpiar_texto s) = par (sub_referencias s)"
proof -
  have "search_referencia (limpiar_texto s) = par (limpiar_texto s)"
    by (rule search_one_line) (rule limpiar_one_line)
  also have "\<dots> = par (filter corchete (limpiar_texto s))"
    by (simp only: par_corchetes)
  also have "\<dots> = par (filter corchete (sub_referencias s))"
    by (simp only: limpiar_texto_def corchetes_strip corchetes_sub_espacios)
  finally show ?thesis by (simp only: par_corchetes)
qed

lemma lazy_close_None_salto:
  "lazy_close cs = None \<Longrightarrow> CHR '']'' \<in> set cs \<Longrightarrow> subseq [CHR 0x0A, CHR '']''] cs"
proof (induction cs)
  case Nil
  then show ?case by simp
next
  case (Cons c cs)
  show ?case
  proof (cases "c = CHR 0x0A")
    case True
    with Cons.prems have "CHR '']'' \<in> set cs" by auto
    then have "subseq [CHR '']''] cs" by (simp add: subseq_singleton_left)
    with True show ?thesis by simp
  next
    case False
    with Cons.prems have "lazy_close cs = None" and "CHR '']'' \<in> set cs"
      by (auto split: if_splits)
    then have "subseq [CHR 0x0A, CHR '']''] cs" by (rule Cons.IH)
    then show ?thesis by (rule list_emb_Cons)
  qed
qed

lemma par_salto:
  "\<not> search_referencia r \<Longrightarrow> par r \<Longrightarrow> subseq [CHR ''['', CHR 0x0A, CHR '']''] r"
proof (induction r)
  case Nil
  then show ?case by simp
next
  case (Cons c cs)
  from Cons.prems(1) have m: "match_referencia (c # cs) = None" and s: "\<not> search_referencia cs"
    by auto
  show ?case
  proof (cases "par cs")
    case True
    with s have "subseq [CHR ''['', CHR 0x0A, CHR '']''] cs" by (rule Cons.IH)
    then show ?thesis by (rule list_emb_Cons)
  next
    case False
    with Cons.prems(2) have c: "c = CHR ''[''" and e: "CHR '']'' \<in> set cs" by auto
    from m c have "lazy_close cs = None" by (simp add: match_referencia_def)
    then have "subseq [CHR 0x0A, CHR '']''] cs" using e by (rule lazy_close_None_salto)
    with c show ?thesis by simp
  qed
qed

lemma lazy_close_subseq: "lazy_close cs = Some rest \<Longrightarrow> subseq rest cs"
  by (induction cs) (auto split: if_splits)

lemma subseq_sub_referencias: "subseq (sub_referencias s) s"
proof (induction s rule: sub_referencias.induct)
  case 1
  show ?case by simp
next
  case (2 c cs)
  show ?case
  proof (cases "match_referencia (c # cs)")
    case None
    with 2 show ?thesis by simp
  next
    case (Some rest)
    then have "subseq rest cs"
      by (auto simp: match_referencia_def split: if_splits dest: lazy_close_subseq)
    with 2 Some have "subseq (sub_referencias rest) cs"
      using subseq_order.trans by auto
    with Some show ?thesis by (simp add: list_emb_Cons)
  qed
qed

lemma search_limpiar_salto:
  assumes "search_referencia (limpiar_texto s)"
  shows "subseq [CHR ''['', CHR 0x0A, CHR '']''] s"
proof -
  from assms have "par (sub_referencias s)" by (simp add: search_limpiar)
  with no_referencia_sub [of s] have "subseq [CHR ''['', CHR 0x0A, CHR '']''] (sub_referencias s)"
    by (rule par_salto)
  then show ?thesis
    using subseq_sub_referencias [of s] subseq_order.trans by blast
qed

lemma espacios_seguidos_Cons:
  "espacios_seguidos (a # xs) =
     ((xs \<noteq> [] \<and> is_space a \<and> is_space (hd xs)) \<or> espacios_seguidos xs)"
  by (cases xs) auto

lemma hd_sub_espacios: "s \<noteq> [] \<Longrightarrow> \<not> is_space (hd s) \<Longrightarrow> hd (sub_espacios s) = hd s"
  by (cases s) auto

lemma sub_espacios_Nil: "sub_espacios s = [] \<longleftrightarrow> s = []"
  by (cases s) auto

lemma no_espacios_seguidos_sub: "\<not> espacios_seguidos (sub_espacios s)"
proof (induction s rule: sub_espacios.induct)
  case 1
  show ?case by simp
next
  case (2 c cs)
  show ?case
  proof (cases "is_space c")
    case True
    have "dropWhile is_space cs \<noteq> [] \<Longrightarrow> \<not> is_space (hd (sub_espacios (dropWhile is_space cs)))"
      by (simp add: hd_sub_espacios hd_dropWhile)
    with 2 True show ?thesis
      by (auto simp: espacios_seguidos_Cons sub_espacios_Nil)
  next
    case False
    with 2 show ?thesis by (simp add: espacios_seguidos_Cons)
  qed
qed

lemma espacios_seguidos_appendI2: "espacios_seguidos ys \<Longrightarrow> espacios_seguidos (xs @ ys)"
  by (induction xs) (auto simp: espacios_seguidos_Cons)

lemma espacios_seguidos_appendI1: "espacios_seguidos xs \<Longrightarrow> espacios_seguidos (xs @ ys)"
  by (induction xs rule: espacios_seguidos.induct) auto

lemma strip_infix: "\<exists>pre post. s = pre @ strip s @ post"
proof -
  let ?v = "dropWhile is_space s"
  have "strip s @ rev (takeWhile is_space (rev ?v))
          = rev (takeWhile is_space (rev ?v) @ dropWhile is_space (rev ?v))"
    by (simp only: strip_def rev_append)
  also have "\<dots> = ?v"
    by (simp only: takeWhile_dropWhile_id rev_rev_ident)
  finally have "?v = strip s @ rev (takeWhile is_space (rev ?v))" by (rule sym)
  moreover have "s = takeWhile is_space s @ ?v" by simp
  ultimately show ?thesis by metis
qed

lemma no_espacios_seguidos_strip: "\<not> espacios_seguidos s \<Longrightarrow> \<not> espacios_seguidos (strip s)"
  using strip_infix [of s] espacios_seguidos_appendI1 espacios_seguidos_appendI2 by metis

lemma last_dropWhile_keep: "dropWhile P xs \<noteq> [] \<Longrightarrow> last (dropWhile P xs) = last xs"
  by (induction xs) (auto split: if_splits)

lemma strip_ends:
  assumes "strip s \<noteq> []"
  shows "\<not> is_space (hd (strip s)) \<and> \<not> is_space (last (strip s))"
proof -
  let ?v = "dropWhile is_space s"
  let ?w = "dropWhile is_space (rev ?v)"
  from assms have w: "?w \<noteq> []" by (simp add: strip_def)
  have v: "?v \<noteq> []"
  proof
    assume e: "?v = []"
    have "?w = []" unfolding e by simp
    with w show False ..
  qed
  have "hd (strip s) = last ?w" using w by (simp add: strip_def hd_rev)
  also have "\<dots> = last (rev ?v)" using w by (rule last_dropWhile_keep)
  also have "\<dots> = hd ?v" using v by (simp add: last_rev)
  finally have "\<not> is_space (hd (strip s))" using v by (simp add: hd_dropWhile)
  moreover have "last (strip s) = hd ?w" using w by (simp add: strip_def last_rev)
  then have "\<not> is_space (last (strip s))" using w by (simp add: hd_dropWhile)
  ultimately show ?thesis ..
qed

section \<open>Properties of the Latin analyser\<close>

subsection \<open>The tokenizer finds the delimited runs\<close>

lemma letter_is_word: "is_ascii_letter c \<Longrightarrow> is_word c"
  by (auto simp: is_ascii_letter_def is_word_def Let_def)

lemma runs_contexto_runs: "map (fst \<circ> snd) (runs_contexto prev s) = runs_letras s"
  by (induction prev s rule: runs_contexto.induct) auto

lemma runs_contexto_prev:
  "\<not> is_ascii_letter c \<Longrightarrow> runs_contexto prev (c # cs) = runs_contexto (Some c) cs"
  by simp

lemma take_run: "take (length (takeWhile P xs)) xs = takeWhile P xs"
  by (induction xs) auto

lemma drop_run: "drop (length (takeWhile P xs)) xs = dropWhile P xs"
  by (induction xs) auto

lemma nth_opt_drop: "nth_opt s i = head_opt (drop i s)"
proof (cases "i < length s")
  case True
  then have "drop i s = s ! i # drop (Suc i) s"
    by (simp add: Cons_nth_drop_Suc)
  with True show ?thesis by (simp add: nth_opt_def head_opt_def)
next
  case False
  then show ?thesis by (simp add: nth_opt_def head_opt_def)
qed

lemma nth_opt_run:
  "nth_opt s (length (takeWhile is_ascii_letter s)) = head_opt (dropWhile is_ascii_letter s)"
  by (simp only: nth_opt_drop drop_run)

lemma backtrack_letters:
  assumes "k \<le> length (takeWhile is_ascii_letter s)"
  shows "backtrack k s = (if 0 < k \<and> \<not> is_word_opt (nth_opt s k) then Some k else None)"
  using assms
proof (induction k)
  case 0
  show ?case by simp
next
  case (Suc k)
  then have lt: "k < length (takeWhile is_ascii_letter s)" by simp
  then have "takeWhile is_ascii_letter s ! k \<in> set (takeWhile is_ascii_letter s)"
    by (rule nth_mem)
  then have "is_ascii_letter (takeWhile is_ascii_letter s ! k)"
    by (rule set_takeWhileD [THEN conjunct2])
  then have letter: "is_ascii_letter (s ! k)"
    using lt by (simp add: takeWhile_nth)
  then have w: "is_word (s ! k)" by (rule letter_is_word)
  have "k < length s"
    using lt length_takeWhile_le [of is_ascii_letter s] by linarith
  then have nk: "nth_opt s k = Some (s ! k)" by (simp add: nth_opt_def)
  from Suc have "backtrack k s = (if 0 < k \<and> \<not> is_word_opt (nth_opt s k) then Some k else None)"
    by simp
  with w nk have "backtrack k s = None" by (simp add: is_word_opt_def)
  with w show ?case by (simp add: word_boundary_def is_word_opt_def)
qed

lemma match_palabra_Cons:
  "match_palabra prev (c # cs) =
     (if is_ascii_letter c \<and> \<not> is_word_opt prev
           \<and> \<not> is_word_opt (head_opt (dropWhile is_ascii_letter cs))
      then Some (Suc (length (takeWhile is_ascii_letter cs))) else None)"
proof (cases "is_ascii_letter c")
  case False
  then show ?thesis by (simp add: match_palabra_def)
next
  case True
  have "backtrack (length (takeWhile is_ascii_letter (c # cs))) (c # cs) =
          (if 0 < length (takeWhile is_ascii_letter (c # cs))
              \<and> \<not> is_word_opt (nth_opt (c # cs) (length (takeWhile is_ascii_letter (c # cs))))
           then Some (length (takeWhile is_ascii_letter (c # cs))) else None)"
    by (rule backtrack_letters) simp
  also have "nth_opt (c # cs) (length (takeWhile is_ascii_letter (c # cs)))
               = head_opt (dropWhile is_ascii_letter (c # cs))"
    by (rule nth_opt_run)
  finally show ?thesis
    using True letter_is_word [OF True]
    by (auto simp: match_palabra_def word_boundary_def is_word_opt_def nth_opt_def)
qed

lemma nth_run_last: "(c # cs) ! length (takeWhile P cs) = last (c # takeWhile P cs)"
  by (induction cs arbitrary: c) auto

lemma filter_runs_skip:
  assumes "is_ascii_letter c"
  shows "filter delimitada (runs_contexto (Some c) cs)
         = filter delimitada (runs_contexto (Some (last (c # takeWhile is_ascii_letter cs)))
             (dropWhile is_ascii_letter cs))"
proof (cases cs)
  case Nil
  then show ?thesis by simp
next
  case (Cons d ds)
  show ?thesis
  proof (cases "is_ascii_letter d")
    case True
    with Cons assms show ?thesis
      by (simp add: delimitada_def is_word_opt_def letter_is_word)
  next
    case False
    with Cons show ?thesis by simp
  qed
qed

lemma findall_runs:
  "findall_palabras prev s = map (fst \<circ> snd) (filter delimitada (runs_contexto prev s))"
proof (induction prev s rule: findall_palabras.induct)
  case (1 prev)
  show ?case by simp
next
  case (2 prev c cs)
  let ?run = "takeWhile is_ascii_letter cs"
  let ?rest = "dropWhile is_ascii_letter cs"
  show ?case
  proof (cases "match_palabra prev (c # cs)")
    case (Some n)
    then have c: "is_ascii_letter c" and d: "\<not> is_word_opt prev" "\<not> is_word_opt (head_opt ?rest)"
      and n: "n = Suc (length ?run)"
      by (auto simp: match_palabra_Cons split: if_splits)
    have "findall_palabras prev (c # cs)
            = take n (c # cs) # findall_palabras (Some ((c # cs) ! (n - 1))) (drop n (c # cs))"
      using Some by simp
    also have "findall_palabras (Some ((c # cs) ! (n - 1))) (drop n (c # cs))
            = map (fst \<circ> snd) (filter delimitada
                (runs_contexto (Some ((c # cs) ! (n - 1))) (drop n (c # cs))))"
      using Some by (rule "2.IH"(2))
    finally have "findall_palabras prev (c # cs)
            = (c # ?run) # map (fst \<circ> snd) (filter delimitada
                (runs_contexto (Some (last (c # ?run))) ?rest))"
      by (simp add: n take_run drop_run nth_run_last)
    moreover have "delimitada (prev, c # ?run, head_opt ?rest)"
      using d by (simp add: delimitada_def)
    ultimately show ?thesis
      using c by simp
  next
    case None
    then have ih: "findall_palabras prev (c # cs)
                     = map (fst \<circ> snd) (filter delimitada (runs_contexto (Some c) cs))"
      using "2.IH"(1) by simp
    show ?thesis
    proof (cases "is_ascii_letter c")
      case False
      with ih show ?thesis by simp
    next
      case True
      with None have "\<not> delimitada (prev, c # ?run, head_opt ?rest)"
        by (auto simp: match_palabra_Cons delimitada_def split: if_splits)
      with True ih show ?thesis
        by (simp add: filter_runs_skip [OF True])
    qed
  qed
qed

subsection \<open>Classification\<close>

lemma clasificar_filter:
  "clasificar T ps (lv, lp) =
     (lv @ filter (\<lambda>p. endswith_any p T) ps, lp @ filter (\<lambda>p. \<not> endswith_any p T) ps)"
  by (induction ps arbitrary: lv lp) auto

lemma lista_verbos_filter:
  "lista_verbos texto
     = filter (\<lambda>p. endswith_any p terminaciones_verbos) (palabras_filtradas texto)"
  by (simp add: lista_verbos_def clasificar_filter)

lemma lista_palabras_filter:
  "lista_palabras texto
     = filter (\<lambda>p. \<not> endswith_any p terminaciones_verbos) (palabras_filtradas texto)"
  by (simp add: lista_palabras_def clasificar_filter)

lemma count_list_filter:
  "count_list (filter P xs) x = (if P x then count_list xs x else 0)"
  by (induction xs) auto

lemma endswith_any_set: "endswith_any p sufijos \<longleftrightarrow> (\<exists>s \<in> set sufijos. endswith p s)"
  by (simp add: endswith_any_def list_ex_iff)

section \<open>Properties of the English analyser\<close>

subsection \<open>The English loop as two filters\<close>

lemma clasificar_ingles_filter:
  "clasificar_ingles doc (palabras, verbos) =
     (palabras @ map (\<lambda>t. lower (tok_lemma t))
        (filter (\<lambda>t. tok_is_alpha t \<and> \<not> tok_is_stop t \<and> 2 < length (tok_text t)
                      \<and> tok_pos t \<in> {''NOUN'', ''PROPN'', ''ADJ''}) doc),
      verbos @ map (\<lambda>t. lower (tok_lemma t))
        (filter (\<lambda>t. tok_is_alpha t \<and> \<not> tok_is_stop t \<and> 2 < length (tok_text t)
                      \<and> tok_pos t = ''VERB'') doc))"
  by (induction doc arbitrary: palabras verbos) (auto simp: Let_def)

section \<open>Claims\<close>

text \<open>
  C1. For every bucket and every \<open>top_n \<ge> 0\<close> the ranking
  \<^verbatim>\<open>Counter(bucket).most_common(top_n)\<close> has length \<open>min top_n (number of distinct tokens)\<close>,
  its counts are non-increasing, every returned count is the multiplicity of its token in
  the bucket and hence at least 1, the returned counts sum to at most the number of tokens
  in the bucket, and \<open>top_n = 0\<close> gives the empty ranking.
\<close>

theorem ranker_top_n:
  assumes "0 \<le> top_n"
  shows "length (most_common (Counter bucket) top_n) = min (nat top_n) (card (set bucket))
       \<and> sorted_wrt (\<lambda>a b. b \<le> a) (map snd (most_common (Counter bucket) top_n))
       \<and> (\<forall>(t, c) \<in> set (most_common (Counter bucket) top_n). c = count_list bucket t \<and> 1 \<le> c)
       \<and> sum_list (map snd (most_common (Counter bucket) top_n)) \<le> length bucket
       \<and> (top_n = 0 \<longrightarrow> most_common (Counter bucket) top_n = [])"
proof (intro conjI)
  show "length (most_common (Counter bucket) top_n) = min (nat top_n) (card (set bucket))"
    by (simp add: most_common_def length_Counter min.commute)
next
  have "sorted_wrt (\<lambda>a b. b \<le> a)
          (take (nat top_n) (map snd (sort_key (\<lambda>kv. - int (snd kv)) (Counter bucket))))"
    by (rule sorted_wrt_take) (rule counts_descending)
  then show "sorted_wrt (\<lambda>a b. b \<le> a) (map snd (most_common (Counter bucket) top_n))"
    by (simp add: most_common_def take_map)
next
  show "\<forall>(t, c) \<in> set (most_common (Counter bucket) top_n). c = count_list bucket t \<and> 1 \<le> c"
  proof (clarify, rule Counter_entry)
    fix t c
    assume "(t, c) \<in> set (most_common (Counter bucket) top_n)"
    then have "(t, c) \<in> set (sort_key (\<lambda>kv. - int (snd kv)) (Counter bucket))"
      unfolding most_common_def by (rule in_set_takeD)
    then show "(t, c) \<in> set (Counter bucket)" by simp
  qed
next
  have "sum_list (map snd (most_common (Counter bucket) top_n))
          \<le> sum_list (map snd (sort_key (\<lambda>kv. - int (snd kv)) (Counter bucket)))"
    unfolding most_common_def by (rule sum_take_le)
  then show "sum_list (map snd (most_common (Counter bucket) top_n)) \<le> length bucket"
    by (simp add: sum_sort_key sum_Counter)
next
  show "top_n = 0 \<longrightarrow> most_common (Counter bucket) top_n = []"
    by (simp add: most_common_def)
qed

theorem ranker_top_n_witness:
  "(0::int) \<le> 2
   \<and> most_common (Counter [''b'', ''a'', ''b'', ''c'', ''a'', ''b'']) 2 = [(''b'', 3), (''a'', 2)]
   \<and> length (most_common (Counter [''b'', ''a'', ''b'', ''c'', ''a'', ''b'']) 2)
       = min (nat 2) (card (set [''b'', ''a'', ''b'', ''c'', ''a'', ''b'']))
   \<and> sum_list (map snd (most_common (Counter [''b'', ''a'', ''b'', ''c'', ''a'', ''b'']) 2)) \<le> 6"
  using ranker_top_n [of 2 "[''b'', ''a'', ''b'', ''c'', ''a'', ''b'']"]
  by (simp add: most_common_def Counter_def)

text \<open>
  C5. Whenever two entries of the ranking have equal counts, they stand in the order in
  which their tokens first occur in the bucket: of two positions \<open>i\<close>, \<open>j\<close> of the
  ranking with the same count, \<open>i\<close> comes before \<open>j\<close> exactly when the token at \<open>i\<close> is
  first seen in the bucket before the token at \<open>j\<close>.
\<close>

theorem ranker_ties_first_seen:
  assumes "i < length (most_common (Counter bucket) top_n)"
    and "j < length (most_common (Counter bucket) top_n)"
    and "snd (most_common (Counter bucket) top_n ! i) = snd (most_common (Counter bucket) top_n ! j)"
  shows "i < j \<longleftrightarrow>
         first_index (fst (most_common (Counter bucket) top_n ! i)) bucket
           < first_index (fst (most_common (Counter bucket) top_n ! j)) bucket"
proof -
  let ?r = "most_common (Counter bucket) top_n"
  have ord: "\<And>k l. k < l \<Longrightarrow> l < length ?r \<Longrightarrow> snd (?r ! k) = snd (?r ! l) \<Longrightarrow>
               first_index (fst (?r ! k)) bucket < first_index (fst (?r ! l)) bucket"
    using sorted_wrt_nth_less [OF ranking_tie_order [of bucket top_n]] by fastforce
  show ?thesis
  proof
    assume "i < j"
    then show "first_index (fst (?r ! i)) bucket < first_index (fst (?r ! j)) bucket"
      using assms by (simp add: ord)
  next
    assume lt: "first_index (fst (?r ! i)) bucket < first_index (fst (?r ! j)) bucket"
    show "i < j"
    proof (rule ccontr)
      assume "\<not> i < j"
      then consider "i = j" | "j < i" by linarith
      then show False
      proof cases
        case 1
        with lt show False by simp
      next
        case 2
        from ord [OF 2 assms(1)] assms(3) lt show False by simp
      qed
    qed
  qed
qed

theorem ranker_ties_first_seen_witness:
  "most_common (Counter [''c'', ''a'', ''b'', ''a'', ''c'']) 3 = [(''c'', 2), (''a'', 2), (''b'', 1)]
   \<and> first_index ''c'' [''c'', ''a'', ''b'', ''a'', ''c''] < first_index ''a'' [''c'', ''a'', ''b'', ''a'', ''c'']"
  using ranker_ties_first_seen [of 0 "[''c'', ''a'', ''b'', ''a'', ''c'']" 3 1]
  by (simp add: most_common_def Counter_def first_index_def)

text \<open>
  C6, as the claim states it, fails: a bracket pair with a line feed between the brackets
  is not matched by the pattern when the references are removed, and the whitespace step
  then turns the line feed into a space, so the output contains a match.
\<close>

theorem limpiar_texto_counterexample:
  "limpiar_texto [CHR ''['', CHR 0x0A, CHR '']''] = ''[ ]''
   \<and> search_referencia (limpiar_texto [CHR ''['', CHR 0x0A, CHR '']''])"
  by (simp add: limpiar_texto_def strip_def is_space_def match_referencia_def)

text \<open>
  C6, amended. For every raw input string, the text left by the reference-removal step
  contains no substring matching the bracketed-reference pattern, and the cleaner's
  output contains one exactly when that text still has an opening bracket followed,
  anywhere later, by a closing one. This needs an opening bracket, later a line feed and
  later a closing bracket in the raw input: for every raw input without these three
  characters in this order the output contains no substring matching the pattern. The
  output has no two consecutive whitespace characters and no leading or trailing
  whitespace, and the empty input yields the empty output.
\<close>

theorem limpiar_texto_amended:
  "\<not> search_referencia (sub_referencias texto_sucio)
   \<and> search_referencia (limpiar_texto texto_sucio) = par (sub_referencias texto_sucio)
   \<and> (\<not> subseq [CHR ''['', CHR 0x0A, CHR '']''] texto_sucio \<longrightarrow>
        \<not> search_referencia (limpiar_texto texto_sucio))
   \<and> \<not> espacios_seguidos (limpiar_texto texto_sucio)
   \<and> (limpiar_texto texto_sucio \<noteq> [] \<longrightarrow>
        \<not> is_space (hd (limpiar_texto texto_sucio)) \<and> \<not> is_space (last (limpiar_texto texto_sucio)))
   \<and> limpiar_texto [] = []"
proof (intro conjI impI)
  show "\<not> search_referencia (sub_referencias texto_sucio)"
    by (rule no_referencia_sub)
next
  show "search_referencia (limpiar_texto texto_sucio) = par (sub_referencias texto_sucio)"
    by (rule search_limpiar)
next
  assume "\<not> subseq [CHR ''['', CHR 0x0A, CHR '']''] texto_sucio"
  then show "\<not> search_referencia (limpiar_texto texto_sucio)"
    using search_limpiar_salto by blast
next
  show "\<not> espacios_seguidos (limpiar_texto texto_sucio)"
    unfolding limpiar_texto_def
    by (rule no_espacios_seguidos_strip) (rule no_espacios_seguidos_sub)
next
  assume "limpiar_texto texto_sucio \<noteq> []"
  then show "\<not> is_space (hd (limpiar_texto texto_sucio))"
    and "\<not> is_space (last (limpiar_texto texto_sucio))"
    unfolding limpiar_texto_def using strip_ends by blast+
next
  show "limpiar_texto [] = []"
    by (simp add: limpiar_texto_def strip_def)
qed

theorem limpiar_texto_amended_witness:
  "\<not> subseq [CHR ''['', CHR 0x0A, CHR '']''] ('' Hola [1]  mundo [nota 2]'' @ [CHR 0x0A] @ ''fin '')
   \<and> limpiar_texto ('' Hola [1]  mundo [nota 2]'' @ [CHR 0x0A] @ ''fin '') = ''Hola mundo fin''
   \<and> \<not> search_referencia (limpiar_texto ('' Hola [1]  mundo [nota 2]'' @ [CHR 0x0A] @ ''fin ''))
   \<and> \<not> espacios_seguidos (limpiar_texto ('' Hola [1]  mundo [nota 2]'' @ [CHR 0x0A] @ ''fin ''))"
proof -
  have e: "\<not> subseq [CHR ''['', CHR 0x0A, CHR '']''] ('' Hola [1]  mundo [nota 2]'' @ [CHR 0x0A] @ ''fin '')
        \<and> limpiar_texto ('' Hola [1]  mundo [nota 2]'' @ [CHR 0x0A] @ ''fin '') = ''Hola mundo fin''"
    by code_simp
  with limpiar_texto_amended [of "'' Hola [1]  mundo [nota 2]'' @ [CHR 0x0A] @ ''fin ''"]
  show ?thesis by simp
qed

text \<open>
  C2. For every Latin input text, the tokens that survive filtering are split between the
  two buckets by the suffix test alone: \<open>lista_verbos\<close> holds, in order, exactly the filtered
  tokens that end with one of the endings, \<open>lista_palabras\<close> exactly the others. So no token
  is in both buckets, and every occurrence of a filtered token is in one of them.
\<close>

theorem latin_buckets_partition:
  "lista_verbos texto
     = filter (\<lambda>p. endswith_any p terminaciones_verbos) (palabras_filtradas texto)
   \<and> lista_palabras texto
     = filter (\<lambda>p. \<not> endswith_any p terminaciones_verbos) (palabras_filtradas texto)
   \<and> set (lista_verbos texto) \<inter> set (lista_palabras texto) = {}
   \<and> (\<forall>p. count_list (lista_verbos texto) p + count_list (lista_palabras texto) p
            = count_list (palabras_filtradas texto) p)"
proof (intro conjI allI)
  show "lista_verbos texto
          = filter (\<lambda>p. endswith_any p terminaciones_verbos) (palabras_filtradas texto)"
    by (rule lista_verbos_filter)
  show "lista_palabras texto
          = filter (\<lambda>p. \<not> endswith_any p terminaciones_verbos) (palabras_filtradas texto)"
    by (rule lista_palabras_filter)
  show "set (lista_verbos texto) \<inter> set (lista_palabras texto) = {}"
    by (auto simp: lista_verbos_filter lista_palabras_filter)
  fix p
  show "count_list (lista_verbos texto) p + count_list (lista_palabras texto) p
          = count_list (palabras_filtradas texto) p"
    by (simp add: lista_verbos_filter lista_palabras_filter count_list_filter)
qed

theorem latin_buckets_partition_witness:
  "palabras_filtradas ''Rosa et rosa amat in'' = [''rosa'', ''rosa'', ''amat'']
   \<and> lista_verbos ''Rosa et rosa amat in'' = [''amat'']
   \<and> lista_palabras ''Rosa et rosa amat in'' = [''rosa'', ''rosa'']"
proof -
  have "palabras_filtradas ''Rosa et rosa amat in'' = [''rosa'', ''rosa'', ''amat'']"
    by code_simp
  with latin_buckets_partition [of "''Rosa et rosa amat in''"] show ?thesis
    by (simp add: endswith_any_def endswith_def terminaciones_verbos_def)
qed

text \<open>
  C3, as the claim states it, fails: in \<^verbatim>\<open>a1\<close> the maximal run of ASCII letters is \<^verbatim>\<open>a\<close>, but
  the digit is a word character, so there is no \<^verbatim>\<open>\b\<close> after the letter and the tokenizer
  finds nothing.
\<close>

theorem palabras_raw_counterexample:
  "palabras_raw ''a1'' = [] \<and> runs_letras (lower ''a1'') = [''a'']"
  by (simp add: palabras_raw_def lower_def lower_char_def mayusculas_def minusculas_def
      match_palabra_def word_boundary_def is_word_opt_def nth_opt_def is_word_def
      is_ascii_letter_def)

text \<open>
  C3, amended. For every input string, the Latin tokenizer lowercases the text and
  extracts as tokens, in order of appearance, exactly those maximal runs of ASCII letters
  that have no word character (letter, digit or underscore) next to them on either side;
  a maximal run that touches such a character yields no token.
\<close>

theorem palabras_raw_delimited_runs:
  "palabras_raw texto
     = map (fst \<circ> snd) (filter delimitada (runs_contexto None (lower texto)))
   \<and> map (fst \<circ> snd) (runs_contexto None (lower texto)) = runs_letras (lower texto)"
  by (simp add: palabras_raw_def findall_runs runs_contexto_runs)

theorem palabras_raw_delimited_runs_witness:
  "palabras_raw ''Ab c1 d'' = [''ab'', ''d'']
   \<and> runs_letras (lower ''Ab c1 d'') = [''ab'', ''c'', ''d'']"
  using palabras_raw_delimited_runs [of "''Ab c1 d''"]
  by (simp add: lower_def lower_char_def mayusculas_def minusculas_def
      delimitada_def is_word_opt_def head_opt_def is_word_def is_ascii_letter_def)

text \<open>
  C7. On the Latin path the text \<^verbatim>\<open>puella amat puellam et cantat\<close> gives the ranked verbs
  \<^verbatim>\<open>[("amat", 1), ("cantat", 1)]\<close> and the ranked words \<^verbatim>\<open>[("puella", 1), ("puellam", 1)]\<close>
  (the analyser returns the words first): \<^verbatim>\<open>et\<close> is a stopword, \<^verbatim>\<open>amat\<close> and \<^verbatim>\<open>cantat\<close> end
  with \<^verbatim>\<open>at\<close>, and \<^verbatim>\<open>puella\<close> and \<^verbatim>\<open>puellam\<close> stay distinct tokens.
\<close>

theorem latin_scenario:
  "analizar_texto_latin_basico ''puella amat puellam et cantat'' 15
     = ([(''puella'', 1), (''puellam'', 1)], [(''amat'', 1), (''cantat'', 1)])
   \<and> lista_verbos ''puella amat puellam et cantat'' = [''amat'', ''cantat'']
   \<and> lista_palabras ''puella amat puellam et cantat'' = [''puella'', ''puellam'']
   \<and> palabras_raw ''puella amat puellam et cantat''
       = [''puella'', ''amat'', ''puellam'', ''et'', ''cantat'']
   \<and> endswith ''amat'' ''at'' \<and> endswith ''cantat'' ''at''"
  by code_simp

text \<open>
  C8. Every token of a Latin text that has more than two characters, is not a stopword
  and ends in \<^verbatim>\<open>are\<close> is classified as a verb, with all its occurrences, and is not among
  the words; the token \<^verbatim>\<open>mare\<close> is one of them.
\<close>

theorem latin_are_is_verb:
  assumes "p \<in> set (palabras_raw texto)"
    and "2 < length p"
    and "p \<notin> set stopwords_latin"
    and "endswith p ''are''"
  shows "p \<in> set (lista_verbos texto) \<and> p \<notin> set (lista_palabras texto)
       \<and> count_list (lista_verbos texto) p = count_list (palabras_raw texto) p"
proof -
  have "''are'' \<in> set terminaciones_verbos"
    by (simp add: terminaciones_verbos_def)
  with assms(4) have v: "endswith_any p terminaciones_verbos"
    unfolding endswith_any_set by blast
  from assms(1-3) have f: "p \<in> set (palabras_filtradas texto)"
    by (simp add: palabras_filtradas_def)
  from assms(2,3) have c: "count_list (palabras_filtradas texto) p = count_list (palabras_raw texto) p"
    by (simp add: palabras_filtradas_def count_list_filter)
  from v f c show ?thesis
    by (simp add: lista_verbos_filter lista_palabras_filter count_list_filter)
qed

theorem latin_are_is_verb_witness:
  "''mare'' \<in> set (palabras_raw ''Mare nostrum'')
   \<and> 2 < length ''mare'' \<and> ''mare'' \<notin> set stopwords_latin \<and> endswith ''mare'' ''are''
   \<and> lista_verbos ''Mare nostrum'' = [''mare'']
   \<and> lista_palabras ''Mare nostrum'' = [''nostrum'']
   \<and> ''mare'' \<in> set (lista_verbos ''Mare nostrum'')"
proof -
  have e: "palabras_raw ''Mare nostrum'' = [''mare'', ''nostrum'']
           \<and> lista_verbos ''Mare nostrum'' = [''mare'']
           \<and> lista_palabras ''Mare nostrum'' = [''nostrum'']
           \<and> ''mare'' \<notin> set stopwords_latin \<and> endswith ''mare'' ''are''"
    by code_simp
  then have "''mare'' \<in> set (lista_verbos ''Mare nostrum'')"
    using latin_are_is_verb [of "''mare''" "''Mare nostrum''"] by simp
  with e show ?thesis by simp
qed

text \<open>
  C9, as the claim states it, fails: the endings are not mutually exclusive, since \<^verbatim>\<open>at\<close>
  is a proper suffix of \<^verbatim>\<open>bat\<close>, and both are in the tuple.
\<close>

theorem terminaciones_counterexample:
  "''at'' \<in> set terminaciones_verbos \<and> ''bat'' \<in> set terminaciones_verbos
   \<and> sufijo_propio ''at'' ''bat''"
  by (simp add: terminaciones_verbos_def sufijo_propio_def endswith_def)

text \<open>
  C9, amended. Exactly five pairs of endings overlap (\<^verbatim>\<open>at\<close> in \<^verbatim>\<open>bat\<close>, \<^verbatim>\<open>it\<close> in \<^verbatim>\<open>avit\<close>,
  \<^verbatim>\<open>evit\<close> and \<^verbatim>\<open>ivit\<close>, \<^verbatim>\<open>ant\<close> in \<^verbatim>\<open>bant\<close>); still the suffix check needs no
  disambiguation order, because it only asks whether some ending matches: every tuple
  with the same endings, in any order, yields the same classification.
\<close>

theorem terminaciones_order_irrelevant:
  "[(a, b). a \<leftarrow> terminaciones_verbos, b \<leftarrow> terminaciones_verbos, sufijo_propio a b]
     = [(''at'', ''bat''), (''it'', ''avit''), (''it'', ''evit''), (''it'', ''ivit''),
        (''ant'', ''bant'')]
   \<and> (set orden = set terminaciones_verbos \<longrightarrow>
        endswith_any p orden = endswith_any p terminaciones_verbos
        \<and> clasificar orden ps acc = clasificar terminaciones_verbos ps acc)"
proof (intro conjI impI)
  show "[(a, b). a \<leftarrow> terminaciones_verbos, b \<leftarrow> terminaciones_verbos, sufijo_propio a b]
     = [(''at'', ''bat''), (''it'', ''avit''), (''it'', ''evit''), (''it'', ''ivit''),
        (''ant'', ''bant'')]"
    by code_simp
next
  assume eq: "set orden = set terminaciones_verbos"
  then have any: "\<And>q. endswith_any q orden = endswith_any q terminaciones_verbos"
    by (simp add: endswith_any_set)
  show "endswith_any p orden = endswith_any p terminaciones_verbos"
    by (rule any)
  show "clasificar orden ps acc = clasificar terminaciones_verbos ps acc"
    by (cases acc) (simp add: clasificar_filter any)
qed

theorem terminaciones_order_irrelevant_witness:
  "set (rev terminaciones_verbos) = set terminaciones_verbos
   \<and> clasificar (rev terminaciones_verbos) [''amabat'', ''rosa'', ''vivit''] ([], [])
       = ([''amabat'', ''vivit''], [''rosa''])
   \<and> clasificar terminaciones_verbos [''amabat'', ''rosa'', ''vivit''] ([], [])
       = ([''amabat'', ''vivit''], [''rosa''])"
proof -
  have "clasificar terminaciones_verbos [''amabat'', ''rosa'', ''vivit''] ([], [])
          = ([''amabat'', ''vivit''], [''rosa''])"
    by code_simp
  then show ?thesis
    using terminaciones_order_irrelevant
      [of "rev terminaciones_verbos" "''x''" "[''amabat'', ''rosa'', ''vivit'']" "([], [])"]
    by simp
qed

text \<open>
  C4, as the claim states it, fails: the code measures the length of the surface text of
  the token, \<^verbatim>\<open>len(token.text)\<close>, before the lemma is taken, not the length of the
  normalized form. A noun \<^verbatim>\<open>oxen\<close> with lemma \<^verbatim>\<open>ox\<close> puts the two-letter entry \<^verbatim>\<open>ox\<close> into the
  words, although no token of the document passes the length test on its normalized form.
\<close>

theorem ingles_counterexample:
  "clasificar_ingles
     [\<lparr>tok_text = ''oxen'', tok_lemma = ''ox'', tok_pos = ''NOUN'',
       tok_is_alpha = True, tok_is_stop = False\<rparr>] ([], []) = ([''ox''], [])
   \<and> \<not> aceptado_normalizado
        \<lparr>tok_text = ''oxen'', tok_lemma = ''ox'', tok_pos = ''NOUN'',
         tok_is_alpha = True, tok_is_stop = False\<rparr>"
  by (simp add: aceptado_normalizado_def lower_def lower_char_def mayusculas_def
      minusculas_def)

text \<open>
  C4, amended. For every English document (the tokens the tagger returns), a token
  contributes to a bucket only if it is alphabetic, is not a stopword and its surface text
  has more than two characters. The verbs are, in order, exactly the lowercased lemmas of
  those tokens that are tagged \<^verbatim>\<open>VERB\<close>, the words exactly the lowercased lemmas of those
  tagged \<^verbatim>\<open>NOUN\<close>, \<^verbatim>\<open>PROPN\<close> or \<^verbatim>\<open>ADJ\<close>; a token with any other tag is in neither bucket.
\<close>

theorem ingles_buckets:
  "clasificar_ingles doc ([], []) =
     (map (\<lambda>t. lower (tok_lemma t))
        (filter (\<lambda>t. tok_is_alpha t \<and> \<not> tok_is_stop t \<and> 2 < length (tok_text t)
                      \<and> tok_pos t \<in> {''NOUN'', ''PROPN'', ''ADJ''}) doc),
      map (\<lambda>t. lower (tok_lemma t))
        (filter (\<lambda>t. tok_is_alpha t \<and> \<not> tok_is_stop t \<and> 2 < length (tok_text t)
                      \<and> tok_pos t = ''VERB'') doc))"
  by (simp add: clasificar_ingles_filter)

theorem ingles_buckets_witness:
  "clasificar_ingles
     [\<lparr>tok_text = ''The'', tok_lemma = ''the'', tok_pos = ''DET'',
       tok_is_alpha = True, tok_is_stop = True\<rparr>,
      \<lparr>tok_text = ''player'', tok_lemma = ''player'', tok_pos = ''NOUN'',
       tok_is_alpha = True, tok_is_stop = False\<rparr>,
      \<lparr>tok_text = ''scored'', tok_lemma = ''Score'', tok_pos = ''VERB'',
       tok_is_alpha = True, tok_is_stop = False\<rparr>,
      \<lparr>tok_text = ''twice'', tok_lemma = ''twice'', tok_pos = ''ADV'',
       tok_is_alpha = True, tok_is_stop = False\<rparr>,
      \<lparr>tok_text = ''.'', tok_lemma = ''.'', tok_pos = ''PUNCT'',
       tok_is_alpha = False, tok_is_stop = False\<rparr>] ([], [])
     = ([''player''], [''score''])"
  using ingles_buckets
    [of "[\<lparr>tok_text = ''The'', tok_lemma = ''the'', tok_pos = ''DET'',
       tok_is_alpha = True, tok_is_stop = True\<rparr>,
      \<lparr>tok_text = ''player'', tok_lemma = ''player'', tok_pos = ''NOUN'',
       tok_is_alpha = True, tok_is_stop = False\<rparr>,
      \<lparr>tok_text = ''scored'', tok_lemma = ''Score'', tok_pos = ''VERB'',
       tok_is_alpha = True, tok_is_stop = False\<rparr>,
      \<lparr>tok_text = ''twice'', tok_lemma = ''twice'', tok_pos = ''ADV'',
       tok_is_alpha = True, tok_is_stop = False\<rparr>,
      \<lparr>tok_text = ''.'', tok_lemma = ''.'', tok_pos = ''PUNCT'',
       tok_is_alpha = False, tok_is_stop = False\<rparr>]"]
  by (simp add: lower_def lower_char_def mayusculas_def minusculas_def)

text \<open>
  C10. A fetch that raises an exception returns \<^verbatim>\<open>(None, None)\<close>, and a page without the
  body-content element gives the empty text. The main routine goes on to the analysis and
  the report exactly when both fetches give a non-empty text; when either text is \<^verbatim>\<open>None\<close>
  or empty, the run is aborted with no analysis and no report.
\<close>

theorem main_needs_both_texts:
  "scrapear_wikipedia Excepcion = (None, None)
   \<and> (contenido_div pag = None \<longrightarrow> snd (scrapear_wikipedia (Pagina pag)) = Some [])
   \<and> (main nlp_en resp_en resp_la \<noteq> Abortado \<longleftrightarrow>
        (\<exists>en la. snd (scrapear_wikipedia resp_en) = Some en \<and> en \<noteq> []
                \<and> snd (scrapear_wikipedia resp_la) = Some la \<and> la \<noteq> []))
   \<and> (py_not (snd (scrapear_wikipedia resp_en)) \<or> py_not (snd (scrapear_wikipedia resp_la))
        \<longrightarrow> main nlp_en resp_en resp_la = Abortado)"
proof -
  obtain t_en x_en where en: "scrapear_wikipedia resp_en = (t_en, x_en)" by force
  obtain t_la x_la where la: "scrapear_wikipedia resp_la = (t_la, x_la)" by force
  have 1: "scrapear_wikipedia Excepcion = (None, None)" by simp
  have 2: "contenido_div pag = None \<longrightarrow> snd (scrapear_wikipedia (Pagina pag)) = Some []"
    by simp
  have 3: "main nlp_en resp_en resp_la \<noteq> Abortado \<longleftrightarrow>
        (\<exists>en la. snd (scrapear_wikipedia resp_en) = Some en \<and> en \<noteq> []
                \<and> snd (scrapear_wikipedia resp_la) = Some la \<and> la \<noteq> [])"
    by (cases x_en; cases x_la)
       (auto simp: main_def en la py_not_def split: prod.splits)
  have 4: "py_not (snd (scrapear_wikipedia resp_en)) \<or> py_not (snd (scrapear_wikipedia resp_la))
        \<longrightarrow> main nlp_en resp_en resp_la = Abortado"
    by (cases x_en; cases x_la)
       (auto simp: main_def en la py_not_def split: prod.splits)
  from 1 2 3 4 show ?thesis by blast
qed

theorem main_needs_both_texts_witness:
  "main (\<lambda>texto. []) Excepcion (Pagina \<lparr>titulo_tag = Some ''Roma'', contenido_div = Some [''Roma urbs est.'']\<rparr>)
     = Abortado
   \<and> scrapear_wikipedia (Pagina \<lparr>titulo_tag = Some ''Rome'', contenido_div = None\<rparr>)
       = (Some ''Rome'', Some [])
   \<and> main (\<lambda>texto. []) (Pagina \<lparr>titulo_tag = Some ''Rome'', contenido_div = None\<rparr>)
        (Pagina \<lparr>titulo_tag = Some ''Roma'', contenido_div = Some [''Roma urbs est.'']\<rparr>)
     = Abortado"
  using main_needs_both_texts [of "\<lparr>titulo_tag = Some ''Rome'', contenido_div = None\<rparr>"
      "\<lambda>texto. []" Excepcion
      "Pagina \<lparr>titulo_tag = Some ''Roma'', contenido_div = Some [''Roma urbs est.'']\<rparr>"]
    main_needs_both_texts [of "\<lparr>titulo_tag = Some ''Rome'', contenido_div = None\<rparr>"
      "\<lambda>texto. []" "Pagina \<lparr>titulo_tag = Some ''Rome'', contenido_div = None\<rparr>"
      "Pagina \<lparr>titulo_tag = Some ''Roma'', contenido_div = Some [''Roma urbs est.'']\<rparr>"]
  by (simp add: py_not_def titulo_de_def strip_def is_space_def)

end
